theory Spec2Isabelle
  imports Main "HOL-Library.Sublist"
begin

section \<open>Go values: runes, strings, indexing and slicing\<close>

text \<open>
  The line buffer of the editor is a Go \<^verbatim>\<open>[]rune\<close>; a rune is a code point, modelled
  as an integer. Go's \<^verbatim>\<open>int\<close> is modelled as \<^typ>\<open>int\<close>: the quantities below are
  indices into, or lengths of, buffers held in memory, far from the 64-bit limits. The
  one exception is the step of a history walk, an argument that is added to the history
  position as it comes: there the arithmetic wraps around as that of a 64-bit \<^verbatim>\<open>int\<close>
  does (\<open>wrap64\<close>).

  A Go \<^verbatim>\<open>string\<close> is a sequence of bytes holding UTF-8. Every string of the editing
  core is produced from runes (\<^verbatim>\<open>string(rl.line)\<close>, \<^verbatim>\<open>string(r)\<close>), so it is valid
  UTF-8 and is modelled by the sequence of the code points it encodes: the conversion
  from runes replaces a rune that is no Unicode scalar value by U+FFFD, the conversion
  back is the identity, and \<^verbatim>\<open>len\<close> of a string counts the bytes of the encoding.
  Since UTF-8 is self-synchronising, searching a byte string for an encoded substring
  is searching the code points.
\<close>

type_synonym rune = int
type_synonym gostring = "rune list"

definition ch :: "char \<Rightarrow> rune" where
  "ch c = of_char c"

definition runes :: "string \<Rightarrow> rune list" where
  "runes s = map ch s"

definition scalar :: "rune \<Rightarrow> rune" where
  "scalar r = (if (0 \<le> r \<and> r < 55296) \<or> (57344 \<le> r \<and> r \<le> 1114111) then r else 65533)"

definition string_of_runes :: "rune list \<Rightarrow> gostring" where
  "string_of_runes rs = map scalar rs"

definition runes_of_string :: "gostring \<Rightarrow> rune list" where
  "runes_of_string s = s"

definition utf8_len :: "rune \<Rightarrow> int" where
  "utf8_len r = (if r < 128 then 1 else if r < 2048 then 2 else if r < 65536 then 3 else 4)"

definition len_string :: "gostring \<Rightarrow> int" where
  "len_string s = sum_list (map utf8_len s)"

definition wrap64 :: "int \<Rightarrow> int" where
  "wrap64 x = (x + 2 ^ 63) mod 2 ^ 64 - 2 ^ 63"

definition len :: "'a list \<Rightarrow> int" where
  "len xs = int (length xs)"

text \<open>\<^verbatim>\<open>xs[i]\<close>: a run-time panic (\<open>None\<close>) outside \<open>0 \<le> i < len(xs)\<close>.\<close>

definition go_index :: "'a list \<Rightarrow> int \<Rightarrow> 'a option" where
  "go_index xs i = (if 0 \<le> i \<and> i < len xs then Some (xs ! nat i) else None)"

text \<open>
  \<^verbatim>\<open>xs[lo:hi]\<close>, \<^verbatim>\<open>xs[lo:]\<close> and \<^verbatim>\<open>xs[:hi]\<close>: a run-time panic unless
  \<open>0 \<le> lo \<le> hi \<le> len(xs)\<close>. (Go lets an explicit \<open>hi\<close> reach the capacity of the
  slice; the capacity is taken to be the length.)
\<close>

definition go_slice :: "'a list \<Rightarrow> int \<Rightarrow> int \<Rightarrow> 'a list option" where
  "go_slice xs lo hi =
     (if 0 \<le> lo \<and> lo \<le> hi \<and> hi \<le> len xs then Some (take (nat (hi - lo)) (drop (nat lo) xs))
      else None)"

definition slice_from :: "'a list \<Rightarrow> int \<Rightarrow> 'a list option" where
  "slice_from xs lo = go_slice xs lo (len xs)"

definition slice_to :: "'a list \<Rightarrow> int \<Rightarrow> 'a list option" where
  "slice_to xs hi = go_slice xs 0 hi"

section \<open>The editing state\<close>

text \<open>
  The \<^verbatim>\<open>History\<close> interface, as far as history navigation uses it: \<^verbatim>\<open>GetLine\<close> returns
  the error text (\<open>Inl\<close>) or the line (\<open>Inr\<close>).

  The fields of \<^verbatim>\<open>Instance\<close> that the functions below read or write. The map
  \<^verbatim>\<open>rl.histories\<close> is an association list, \<^verbatim>\<open>rl.Prompt.primary\<close> is \<open>Prompt_primary\<close>, and
  \<open>printed\<close> collects what \<^verbatim>\<open>print\<close> writes to the terminal, oldest first.
\<close>

record History =
  Len :: int
  GetLine :: "int \<Rightarrow> gostring + gostring"

record Instance =
  line :: "rune list"
  pos :: int
  mark :: int
  activeRegion :: bool
  visualLine :: bool
  keys :: gostring
  lineBuf :: gostring
  histPos :: int
  historySourcePos :: int
  histories :: "(gostring \<times> History) list"
  historyNames :: "gostring list"
  Prompt_primary :: gostring
  printed :: "gostring list"

text \<open>An editing state with a line and a cursor, no mark and no history.\<close>

definition editing :: "rune list \<Rightarrow> int \<Rightarrow> Instance" where
  "editing l p =
     \<lparr>line = l, pos = p, mark = -1, activeRegion = False, visualLine = False, keys = [],
      lineBuf = [], histPos = 0, historySourcePos = 0, histories = [], historyNames = [],
      Prompt_primary = [], printed = []\<rparr>"

text \<open>The invariant of the cursor (section 3).\<close>

definition cursor_ok :: "Instance \<Rightarrow> bool" where
  "cursor_ok rl = (0 \<le> pos rl \<and> pos rl \<le> len (line rl))"

section \<open>Brace motions (vim-utils.go)\<close>

function prevBraceLoop :: "rune list \<Rightarrow> int \<Rightarrow> int \<Rightarrow> int option" where
  "prevBraceLoop l p i =
     (if i = 0 then Some 0
      else (case go_index l i of
              None \<Rightarrow> None
            | Some c \<Rightarrow> if c = ch CHR ''{'' then Some (i - p) else prevBraceLoop l p (i - 1)))"
  by pat_completeness auto
termination
  by (relation "measure (\<lambda>(l, p, i). nat i)") (auto simp: go_index_def split: if_splits)

definition viJumpPreviousBrace :: "Instance \<Rightarrow> int option" where
  "viJumpPreviousBrace rl =
     (if pos rl = 0 then Some 0 else prevBraceLoop (line rl) (pos rl) (pos rl - 1))"

function nextBraceLoop :: "rune list \<Rightarrow> int \<Rightarrow> int \<Rightarrow> int option" where
  "nextBraceLoop l p i =
     (if i < len l then
        (case go_index l i of
           None \<Rightarrow> None
         | Some c \<Rightarrow> if c = ch CHR ''{'' then Some (i - p) else nextBraceLoop l p (i + 1))
      else Some 0)"
  by pat_completeness auto
termination
  by (relation "measure (\<lambda>(l, p, i). nat (len l - i))") (auto simp: go_index_def split: if_splits)

definition viJumpNextBrace :: "Instance \<Rightarrow> int option" where
  "viJumpNextBrace rl =
     (if pos rl \<ge> len (line rl) - 1 then Some 0
      else nextBraceLoop (line rl) (pos rl) (pos rl + 1))"

section \<open>Selection (selection.go)\<close>

text \<open>
  The loop of \<^verbatim>\<open>getSelectionPos\<close> in visual-line mode: \<^verbatim>\<open>range rl.line[epos:]\<close> is
  evaluated once, \<open>i\<close> counts the runes of that slice, and \<^verbatim>\<open>epos = epos + i\<close> runs for
  every rune before the first newline.
\<close>

fun visualLineLoop :: "rune list \<Rightarrow> int \<Rightarrow> int \<Rightarrow> int" where
  "visualLineLoop [] i epos = epos"
| "visualLineLoop (c # cs) i epos =
     (if c = ch CHR 0x0A then epos else visualLineLoop cs (i + 1) (epos + i))"

definition getSelectionPos :: "Instance \<Rightarrow> (int \<times> int \<times> int) option" where
  "getSelectionPos rl =
     (let (bpos, epos) = (if mark rl < pos rl then (mark rl, pos rl + 1) else (pos rl, mark rl)) in
      (case (if visualLine rl
             then (case slice_from (line rl) epos of
                     None \<Rightarrow> None
                   | Some rest \<Rightarrow> Some (0, visualLineLoop rest 0 epos))
             else Some (bpos, epos)) of
         None \<Rightarrow> None
       | Some (bpos, epos) \<Rightarrow>
           (let epos = (if epos > len (line rl) - 1 then len (line rl) else epos);
                bpos = (if bpos < 0 then 0 else bpos)
            in Some (bpos, epos, bpos))))"

definition adjustSurroundQuotes :: "int \<Rightarrow> int \<Rightarrow> int \<Rightarrow> int \<Rightarrow> int \<times> int" where
  "adjustSurroundQuotes dBpos dEpos sBpos sEpos =
     (if (sBpos = -1 \<or> sEpos = -1) \<and> (dBpos = -1 \<or> dEpos = -1) then (-1, -1)
      else
        (let doubleFirstAndValid = (dBpos < sBpos \<and> dBpos \<ge> 0 \<and> sBpos \<ge> 0 \<and> dEpos > sEpos);
             singleFirstAndValid = (sBpos < dBpos \<and> sBpos \<ge> 0 \<and> dBpos \<ge> 0 \<and> sEpos > dEpos)
         in if (sBpos = -1 \<or> sEpos = -1) \<or> doubleFirstAndValid then (dBpos, dEpos)
            else if (dBpos = -1 \<or> dEpos = -1) \<or> singleFirstAndValid then (sBpos, sEpos)
            else (-1, -1)))"

section \<open>Tokenisers\<close>

text \<open>
  A tokeniser takes the line and the cursor and returns the tokens (strings), the index
  of the token holding the cursor and the offset of the cursor in that token. The
  motions \<^verbatim>\<open>viJumpB\<close>, \<^verbatim>\<open>viJumpE\<close> and \<^verbatim>\<open>viJumpW\<close> receive the tokeniser as an argument.
  The tokenisers themselves (\<^verbatim>\<open>tokeniseLine\<close>, \<^verbatim>\<open>tokeniseSplitSpaces\<close>,
  \<^verbatim>\<open>tokeniseBrackets\<close>) are not among the sources at hand: where a function calls one
  by name, the model takes it as an argument of that name.
\<close>

type_synonym tokeniser = "rune list \<Rightarrow> int \<Rightarrow> gostring list \<times> int \<times> int"

definition is_blank :: "rune \<Rightarrow> bool" where
  "is_blank r = (r = ch CHR '' '' \<or> r = ch CHR 0x09)"

text \<open>
  Modelled from the spec: \<^verbatim>\<open>rTrimWhiteSpace\<close> is not among the sources; section 4.2 has
  end-of-word trim the trailing blanks from the token text before measuring it.
\<close>

definition rTrimWhiteSpace :: "gostring \<Rightarrow> gostring" where
  "rTrimWhiteSpace s = rev (dropWhile is_blank (rev s))"

text \<open>
  Modelled from the spec: the tokeniser contract of section 4.1. The tokens partition
  the buffer into non-empty spans, the index names the token that holds the cursor, and
  the offset is the distance of the cursor from the start of that token (at most the
  token's length, reached by a cursor at the end of the buffer); an empty buffer has no
  tokens and index and offset 0.
\<close>

definition tokenises :: "rune list \<Rightarrow> int \<Rightarrow> gostring list \<times> int \<times> int \<Rightarrow> bool" where
  "tokenises l p res =
     (case res of (split, i, off) \<Rightarrow>
        concat split = string_of_runes l \<and> [] \<notin> set split \<and>
        (if split = [] then i = 0 \<and> off = 0
         else 0 \<le> i \<and> i < len split \<and> 0 \<le> off \<and> off \<le> len (split ! nat i) \<and>
              len (concat (take (nat i) split)) + off = p))"

text \<open>
  Modelled from the spec: the whitespace-only tokeniser of section 4.1, which is not
  among the sources. It splits strictly on blank runs; a run of blanks belongs to the
  token it follows (end-of-word trims it off again), blanks that open the line are a
  token of their own.
\<close>

fun splitSpaces :: "rune list \<Rightarrow> gostring list" where
  "splitSpaces [] = []"
| "splitSpaces (c # cs) =
     (case splitSpaces cs of
        [] \<Rightarrow> [[c]]
      | t # ts \<Rightarrow> if is_blank c \<and> \<not> is_blank (hd t) then [c] # t # ts else (c # t) # ts)"

text \<open>
  Modelled from the spec: the index of the token that holds the cursor and the offset of
  the cursor in it; a cursor at the end of the buffer is in the last token, at its
  length.
\<close>

fun locate :: "gostring list \<Rightarrow> nat \<Rightarrow> nat \<Rightarrow> nat \<times> nat" where
  "locate [] i p = (0, 0)"
| "locate [t] i p = (i, p)"
| "locate (t # u # ts) i p = (if p < length t then (i, p) else locate (u # ts) (Suc i) (p - length t))"

text \<open>
  Modelled from the spec: \<^verbatim>\<open>tokeniseSplitSpaces\<close>, made of the two functions above on the
  string of the line.
\<close>

definition tokeniseSplitSpaces_model :: tokeniser where
  "tokeniseSplitSpaces_model l p =
     (let split = splitSpaces (string_of_runes l); (i, off) = locate split 0 (nat p)
      in (split, int i, int off))"

section \<open>Word and bracket motions (vim-utils.go)\<close>

text \<open>
  The local \<^verbatim>\<open>pos\<close> of the motions, the offset in the token, is \<open>off\<close> here; \<open>pos rl\<close>
  is the cursor \<^verbatim>\<open>rl.pos\<close>.
\<close>

definition viJumpB :: "tokeniser \<Rightarrow> Instance \<Rightarrow> int option" where
  "viJumpB tokeniser rl =
     (case tokeniser (line rl) (pos rl) of (split, index, off) \<Rightarrow>
        if len split = 0 then Some 0
        else if index = 0 \<and> off = 0 then Some 0
        else if off = 0 then
          (case go_index split (index - 1) of
             None \<Rightarrow> None
           | Some t \<Rightarrow> Some (len_string t * -1))
        else Some (off * -1))"

definition viJumpE :: "tokeniser \<Rightarrow> Instance \<Rightarrow> int option" where
  "viJumpE tokeniser rl =
     (case tokeniser (line rl) (pos rl) of (split, index, off) \<Rightarrow>
        if len split = 0 then Some 0
        else
          (case go_index split index of
             None \<Rightarrow> None
           | Some t \<Rightarrow>
               (let word = rTrimWhiteSpace t in
                if len split = 0 then Some 0
                else if index = len split - 1 \<and> off \<ge> len_string word - 1 then Some 0
                else if off \<ge> len_string word - 1 then
                  (case go_index split (index + 1) of
                     None \<Rightarrow> None
                   | Some u \<Rightarrow>
                       (let word = rTrimWhiteSpace u;
                            adjust = len_string t - off
                        in Some (adjust + (len_string word - 1))))
                else Some (len_string word - off - 1))))"

definition viJumpW :: "tokeniser \<Rightarrow> Instance \<Rightarrow> int option" where
  "viJumpW tokeniser rl =
     (case tokeniser (line rl) (pos rl) of (split, index, off) \<Rightarrow>
        if len split = 0 then Some 0
        else if index + 1 = len split then Some (len (line rl) - pos rl)
        else
          (case go_index split index of
             None \<Rightarrow> None
           | Some t \<Rightarrow> Some (len_string t - off)))"

definition viJumpBracket :: "tokeniser \<Rightarrow> Instance \<Rightarrow> int option" where
  "viJumpBracket tokeniseBrackets rl =
     (case tokeniseBrackets (line rl) (pos rl) of (split, index, off) \<Rightarrow>
        if len split = 0 then Some 0
        else if off = 0 then
          (case go_index split index of
             None \<Rightarrow> None
           | Some t \<Rightarrow> Some (len_string t))
        else Some (off * -1))"

section \<open>Numbered-token deletion (vim-utils.go)\<close>

text \<open>
  \<^verbatim>\<open>strings.ReplaceAll(s, old, new)\<close>: the non-overlapping occurrences of \<open>old\<close> are
  replaced from the left; an empty \<open>old\<close> matches before every code point and at the end.
\<close>

function replaceScan :: "gostring \<Rightarrow> gostring \<Rightarrow> gostring \<Rightarrow> gostring" where
  "replaceScan old new s =
     (if s = [] \<or> old = [] then s
      else if prefix old s then new @ replaceScan old new (drop (length old) s)
      else hd s # replaceScan old new (tl s))"
  by pat_completeness auto
termination
  by (relation "measure (\<lambda>(old, new, s). length s)") auto

declare replaceScan.simps [simp del]

definition strings_ReplaceAll :: "gostring \<Rightarrow> gostring \<Rightarrow> gostring \<Rightarrow> gostring" where
  "strings_ReplaceAll s old new =
     (if old = [] then new @ concat (map (\<lambda>c. c # new) s) else replaceScan old new s)"

text \<open>
  \<^verbatim>\<open>vimDeleteToken\<close> returns whether it changed the line. \<^verbatim>\<open>rl.redisplay()\<close> draws the
  screen and is outside the editing state.
\<close>

definition vimDeleteToken :: "tokeniser \<Rightarrow> rune \<Rightarrow> Instance \<Rightarrow> (bool \<times> Instance) option" where
  "vimDeleteToken tokeniseSplitSpaces r rl =
     (case tokeniseSplitSpaces (line rl) 0 of (tokens, _, _) \<Rightarrow>
        (let pos' = r - 48 in
         if pos' > len tokens then Some (False, rl)
         else
           (let s = string_of_runes (line rl) in
            case go_index tokens (pos' - 1) of
              None \<Rightarrow> None
            | Some tok \<Rightarrow>
                (let newLine = strings_ReplaceAll s tok [] in
                 if newLine = s then Some (False, rl)
                 else
                   (let rl1 = rl\<lparr>line := runes_of_string newLine\<rparr>;
                        rl2 = (if pos rl1 > len (line rl1) then rl1\<lparr>pos := len (line rl1) - 1\<rparr>
                               else rl1)
                    in Some (True, rl2))))))"

text \<open>
  The reading of section 4.4: the line without the first textual occurrence of a string
  (the line itself when the string does not occur).
\<close>

fun remove_first_occurrence :: "gostring \<Rightarrow> gostring \<Rightarrow> gostring" where
  "remove_first_occurrence old [] = []"
| "remove_first_occurrence old (c # cs) =
     (if prefix old (c # cs) then drop (length old) (c # cs)
      else c # remove_first_occurrence old cs)"

section \<open>Character motions (widgets)\<close>

text \<open>\<^verbatim>\<open>skipUndoAppend\<close> is undo bookkeeping; the undo stack is not part of this state.\<close>

definition forwardChar :: "Instance \<Rightarrow> Instance" where
  "forwardChar rl = (if pos rl < len (line rl) then rl\<lparr>pos := pos rl + 1\<rparr> else rl)"

definition backwardChar :: "Instance \<Rightarrow> Instance" where
  "backwardChar rl = (if pos rl > 0 then rl\<lparr>pos := pos rl - 1\<rparr> else rl)"

section \<open>Surround search (selection.go, vim-utils.go)\<close>

definition matchSurround :: "rune \<Rightarrow> rune \<times> rune" where
  "matchSurround r =
     (if r = ch CHR ''{'' then (r, ch CHR ''}'')
      else if r = ch CHR ''('' then (r, ch CHR '')'')
      else if r = ch CHR ''['' then (r, ch CHR '']'')
      else if r = ch CHR ''<'' then (r, ch CHR ''>'')
      else if r = ch CHR ''}'' then (ch CHR ''{'', ch CHR ''}'')
      else if r = ch CHR '')'' then (ch CHR ''('', ch CHR '')'')
      else if r = ch CHR '']'' then (ch CHR ''['', ch CHR '']'')
      else if r = ch CHR ''>'' then (ch CHR ''<'', ch CHR ''>'')
      else (r, r))"

text \<open>
  \<^verbatim>\<open>substrPos\<close> is not among the sources. It is an argument of the model: a method of
  the instance that takes a rune and a direction and returns a position (or -1), and
  that may write to the instance as it searches.
\<close>

type_synonym substrPos = "Instance \<Rightarrow> rune \<Rightarrow> bool \<Rightarrow> int \<times> Instance"

definition searchSurround ::
  "substrPos \<Rightarrow> rune \<Rightarrow> Instance \<Rightarrow> (int \<times> int \<times> rune \<times> rune) \<times> Instance" where
  "searchSurround substrPos r rl =
     (let posInit = pos rl;
          (bchar, echar) = matchSurround r;
          (bpos, rl) = substrPos rl bchar False;
          (epos, rl) = substrPos rl echar True;
          (bpos, epos, rl) =
            (if bpos = epos then
               (let rl = rl\<lparr>pos := pos rl + 1\<rparr>;
                    (epos, rl) = substrPos rl echar True
                in if epos = -1 then
                     (let rl = rl\<lparr>pos := pos rl - 1\<rparr>;
                          (epos, rl) = substrPos rl echar False
                      in if epos \<noteq> -1 then (epos, bpos, rl) else (bpos, epos, rl))
                   else (bpos, epos, rl))
             else (bpos, epos, rl));
          rl = rl\<lparr>pos := posInit\<rparr>
      in ((bpos, epos, bchar, echar), rl))"

section \<open>Keyword switching (widgets, selection.go)\<close>

text \<open>
  The regular expressions are matched against one rune, or against the two runes at
  the cursor: \<^verbatim>\<open>[0-9a-zA-Z_]\<close>, \<^verbatim>\<open>[^0-9a-zA-Z_ ]\<close>, \<^verbatim>\<open>[^0-9]\<close>, and the unanchored
  \<^verbatim>\<open>[+-][0-9]\<close> and \<^verbatim>\<open>[+-][a-zA-Z]\<close>.
\<close>

definition is_digit :: "rune \<Rightarrow> bool" where
  "is_digit r = (ch CHR ''0'' \<le> r \<and> r \<le> ch CHR ''9'')"

definition is_letter :: "rune \<Rightarrow> bool" where
  "is_letter r = ((ch CHR ''a'' \<le> r \<and> r \<le> ch CHR ''z'') \<or> (ch CHR ''A'' \<le> r \<and> r \<le> ch CHR ''Z''))"

definition is_sign :: "rune \<Rightarrow> bool" where
  "is_sign r = (r = ch CHR ''+'' \<or> r = ch CHR ''-'')"

definition matchWord :: "rune \<Rightarrow> bool" where
  "matchWord r = (is_digit r \<or> is_letter r \<or> r = ch CHR ''_'')"

definition matchNonWord :: "rune \<Rightarrow> bool" where
  "matchNonWord r = (\<not> matchWord r \<and> r \<noteq> ch CHR '' '')"

fun matchPair :: "(rune \<Rightarrow> bool) \<Rightarrow> (rune \<Rightarrow> bool) \<Rightarrow> gostring \<Rightarrow> bool" where
  "matchPair p q (a # b # cs) = ((p a \<and> q b) \<or> matchPair p q (b # cs))"
| "matchPair p q cs = False"

function selectBackward :: "rune list \<Rightarrow> (rune \<Rightarrow> bool) \<Rightarrow> int \<Rightarrow> int option" where
  "selectBackward l pat bpos =
     (if bpos \<ge> 0 then
        (case go_index l bpos of
           None \<Rightarrow> None
         | Some c \<Rightarrow> if \<not> pat c then Some bpos else selectBackward l pat (bpos - 1))
      else Some bpos)"
  by pat_completeness auto
termination
  by (relation "measure (\<lambda>(l, pat, bpos). nat (bpos + 1))") auto

function selectForward :: "rune list \<Rightarrow> (rune \<Rightarrow> bool) \<Rightarrow> int \<Rightarrow> int option" where
  "selectForward l pat epos =
     (if epos < len l then
        (case go_index l epos of
           None \<Rightarrow> None
         | Some c \<Rightarrow> if \<not> pat c then Some epos else selectForward l pat (epos + 1))
      else Some epos)"
  by pat_completeness auto
termination
  by (relation "measure (\<lambda>(l, pat, epos). nat (len l - epos))") auto

declare selectBackward.simps [simp del] selectForward.simps [simp del]

definition selectInWord :: "Instance \<Rightarrow> int \<Rightarrow> (int \<times> int) option" where
  "selectInWord rl cpos =
     (case go_index (line rl) cpos of
        None \<Rightarrow> None
      | Some c \<Rightarrow>
          (let pattern = (if \<not> matchWord c then matchNonWord else matchWord) in
           case selectBackward (line rl) pattern cpos of
             None \<Rightarrow> None
           | Some bpos \<Rightarrow>
               (case selectForward (line rl) pattern cpos of
                  None \<Rightarrow> None
                | Some epos \<Rightarrow> Some (bpos + 1, if epos > 0 then epos - 1 else epos))))"

text \<open>
  A keyword switcher takes the selection and the direction and returns whether it
  changed the word, the new word, and the begin and end offsets of what it changed.
\<close>

type_synonym switcher = "gostring \<Rightarrow> bool \<Rightarrow> bool \<times> gostring \<times> int \<times> int"

text \<open>
  The loop over the switchers: \<open>bpos\<close> and \<open>epos\<close> are updated before the test on the
  cursor, and keep their values for the next switcher when that test skips this one.
\<close>

fun switchLoop ::
  "switcher list \<Rightarrow> gostring \<Rightarrow> bool \<Rightarrow> int \<Rightarrow> int \<Rightarrow> int \<Rightarrow> Instance \<Rightarrow> Instance option" where
  "switchLoop [] selection increase cpos bpos epos rl = Some rl"
| "switchLoop (switcher # rest) selection increase cpos bpos epos rl =
     (case switcher selection increase of (changed, word, obpos, oepos) \<Rightarrow>
        if \<not> changed then switchLoop rest selection increase cpos bpos epos rl
        else
          (let epos = bpos + oepos;
               bpos = bpos + obpos
           in if cpos < bpos \<or> cpos \<ge> epos then switchLoop rest selection increase cpos bpos epos rl
              else
                (case slice_to (line rl) bpos of
                   None \<Rightarrow> None
                 | Some begin \<Rightarrow>
                     (case slice_from (line rl) epos of
                        None \<Rightarrow> None
                      | Some end' \<Rightarrow>
                          Some (rl\<lparr>line := runes_of_string (string_of_runes begin)
                                          @ runes_of_string word
                                          @ runes_of_string (string_of_runes end'),
                                   pos := bpos + len_string word - 1\<rparr>)))))"

text \<open>
  \<^verbatim>\<open>lineSlice\<close>, \<^verbatim>\<open>keywordSwitchers\<close> and the key code \<^verbatim>\<open>charCtrlA\<close> are not among the
  sources and are arguments of the model. \<^verbatim>\<open>undoHistoryAppend\<close> is undo bookkeeping.
\<close>

definition switchKeyword ::
  "rune \<Rightarrow> (Instance \<Rightarrow> int \<Rightarrow> gostring) \<Rightarrow> switcher list \<Rightarrow> Instance \<Rightarrow> Instance option" where
  "switchKeyword charCtrlA lineSlice keywordSwitchers rl =
     (let cpos = pos rl;
          increase = (keys rl = string_of_runes [charCtrlA])
      in
      case (if matchPair is_sign is_digit (lineSlice rl 2) then
              (if cpos = 0 then Some (cpos + 1)
               else (case go_index (line rl) (cpos - 1) of
                       None \<Rightarrow> None
                     | Some c \<Rightarrow> Some (if \<not> is_digit c then cpos + 1 else cpos)))
            else if matchPair is_sign is_letter (lineSlice rl 2) then
              (if cpos = 0 then Some (cpos + 1)
               else (case go_index (line rl) (pos rl - 1) of
                       None \<Rightarrow> None
                     | Some c \<Rightarrow> Some (if c = ch CHR '' '' then cpos + 1 else cpos)))
            else Some cpos) of
        None \<Rightarrow> None
      | Some cpos \<Rightarrow>
          (case selectInWord rl cpos of
             None \<Rightarrow> None
           | Some (bpos, epos) \<Rightarrow>
               (let epos = epos + 1 in
                case (if bpos \<noteq> 0 then
                        (case go_index (line rl) (bpos - 1) of
                           None \<Rightarrow> None
                         | Some c \<Rightarrow> Some (if is_sign c then bpos - 1 else bpos))
                      else Some bpos) of
                  None \<Rightarrow> None
                | Some bpos \<Rightarrow>
                    (case go_slice (line rl) bpos epos of
                       None \<Rightarrow> None
                     | Some sel \<Rightarrow>
                         switchLoop keywordSwitchers (string_of_runes sel) increase cpos bpos epos rl))))"

section \<open>History navigation (history.go)\<close>

text \<open>
  \<^verbatim>\<open>currentHistory\<close>: the outer \<open>None\<close> is the panic of \<^verbatim>\<open>rl.historyNames[...]\<close>, the
  inner one the nil interface (no history, or no entry of that name in the map).
\<close>

definition currentHistory :: "Instance \<Rightarrow> History option option" where
  "currentHistory rl =
     (if len (histories rl) = 0 then Some None
      else (case go_index (historyNames rl) (historySourcePos rl) of
              None \<Rightarrow> None
            | Some name \<Rightarrow> Some (map_of (histories rl) name)))"

definition print :: "gostring \<Rightarrow> Instance \<Rightarrow> Instance" where
  "print s rl = rl\<lparr>printed := printed rl @ [s]\<rparr>"

text \<open>
  \<^verbatim>\<open>resetHelpers\<close> and \<^verbatim>\<open>clearLine\<close> are not among the sources and are arguments of the
  model. The step \<open>p\<close> is any \<^verbatim>\<open>int\<close>: \<^verbatim>\<open>rl.histPos + pos\<close> and the index
  \<^verbatim>\<open>history.Len() - rl.histPos\<close> wrap around.
\<close>

definition walkHistory ::
  "(Instance \<Rightarrow> Instance) \<Rightarrow> (Instance \<Rightarrow> Instance) \<Rightarrow> int \<Rightarrow> Instance \<Rightarrow> Instance option" where
  "walkHistory resetHelpers clearLine p rl =
     (let rl = rl\<lparr>historySourcePos := 0\<rparr> in
      case currentHistory rl of
        None \<Rightarrow> None
      | Some None \<Rightarrow> Some rl
      | Some (Some history) \<Rightarrow>
          if Len history = 0 then Some rl
          else
            (let rl = (if histPos rl = 0 \<and> wrap64 (histPos rl + p) = 1
                       then rl\<lparr>lineBuf := string_of_runes (line rl)\<rparr> else rl);
                 rl = rl\<lparr>histPos := wrap64 (histPos rl + p)\<rparr>;
                 rl = (if histPos rl > Len history then rl\<lparr>histPos := Len history\<rparr>
                       else if histPos rl < 0 then rl\<lparr>histPos := 0\<rparr>
                       else if histPos rl = 0
                       then rl\<lparr>line := runes_of_string (lineBuf rl), pos := len_string (lineBuf rl)\<rparr>
                       else rl)
             in if histPos rl > 0 then
                  (case GetLine history (wrap64 (Len history - histPos rl)) of
                     Inl err \<Rightarrow>
                       Some (print (Prompt_primary rl)
                               (print (runes [CHR 0x0D, CHR 0x0A] @ err @ runes [CHR 0x0D, CHR 0x0A])
                                  (resetHelpers rl)))
                   | Inr next \<Rightarrow>
                       (let rl = clearLine rl;
                            rl = rl\<lparr>line := runes_of_string next\<rparr>
                        in Some (rl\<lparr>pos := len (line rl)\<rparr>)))
                else Some rl))"

section \<open>Inserting a key (widgets)\<close>

text \<open>
  \<^verbatim>\<open>selfInsert\<close>. The loop drops the NUL runes at the end of the key sequence. A control
  character is written in caret notation; \<^verbatim>\<open>byte(r[0])\<close> keeps the low eight bits. The
  key codes \<^verbatim>\<open>charCtrlA\<close> and \<^verbatim>\<open>charCtrlUnderscore\<close> and \<^verbatim>\<open>removeSuffixInserted\<close> are not
  among the sources and are arguments of the model.
\<close>

function stripNul :: "rune list \<Rightarrow> rune list" where
  "stripNul r = (if len r > 1 \<and> go_index r (len r - 1) = Some 0 then stripNul (butlast r) else r)"
  by pat_completeness auto
termination
  by (relation "measure length") (auto simp: len_def)

declare stripNul.simps [simp del]

definition selfInsert ::
  "rune \<Rightarrow> rune \<Rightarrow> (Instance \<Rightarrow> Instance) \<Rightarrow> Instance \<Rightarrow> Instance option" where
  "selfInsert charCtrlA charCtrlUnderscore removeSuffixInserted rl =
     (let rl = removeSuffixInserted rl;
          r = stripNul (runes_of_string (keys rl));
          r = (if len r = 1 \<and> charCtrlA < hd r mod 256 \<and> hd r mod 256 < charCtrlUnderscore
               then [ch CHR ''^'', xor (hd r mod 256) 64] else r)
      in case (if len (line rl) = 0 then Some (rl\<lparr>line := r\<rparr>)
               else if pos rl < len (line rl) then
                 (case slice_from (line rl) (pos rl) of
                    None \<Rightarrow> None
                  | Some back \<Rightarrow>
                      (let forwardLine = r @ back in
                       case slice_to (line rl) (pos rl) of
                         None \<Rightarrow> None
                       | Some front \<Rightarrow> Some (rl\<lparr>line := front @ forwardLine\<rparr>)))
               else if pos rl = len (line rl) then Some (rl\<lparr>line := line rl @ r\<rparr>)
               else Some rl) of
           None \<Rightarrow> None
         | Some rl \<Rightarrow> Some (rl\<lparr>pos := pos rl + len r\<rparr>))"

section \<open>File history (history.go)\<close>

text \<open>The file-backed history: \<^verbatim>\<open>fileHistory.GetLine\<close> and \<^verbatim>\<open>fileHistory.Len\<close> over \<^verbatim>\<open>h.list\<close>.\<close>

definition fileHistory_GetLine :: "gostring list \<Rightarrow> int \<Rightarrow> gostring + gostring" where
  "fileHistory_GetLine list i =
     (if i < 0 then Inl (runes ''cannot use a negative index when requesting historic commands'')
      else if i < len list then Inr (list ! nat i)
      else Inl (runes ''index requested greater than number of items in history''))"

definition fileHistory :: "gostring list \<Rightarrow> History" where
  "fileHistory list = \<lparr>Len = len list, GetLine = fileHistory_GetLine list\<rparr>"

section \<open>Notions of the specification\<close>

text \<open>A search for a quote pair succeeded when neither of its positions is -1.\<close>

definition found :: "int \<Rightarrow> int \<Rightarrow> bool" where
  "found b e = (b \<noteq> - 1 \<and> e \<noteq> - 1)"

text \<open>
  The history index that \<^verbatim>\<open>walkHistory\<close> settles on for a step \<open>p\<close>: the sum as the
  machine computes it, kept between 0 and the length of the history.
\<close>

definition walkTarget :: "History \<Rightarrow> int \<Rightarrow> Instance \<Rightarrow> int" where
  "walkTarget history p rl =
     (if wrap64 (histPos rl + p) > Len history then Len history
      else if wrap64 (histPos rl + p) < 0 then 0 else wrap64 (histPos rl + p))"

text \<open>
  The reading of section 4.4, amended: \<open>r\<close> is \<open>s\<close> without the occurrences of \<open>old\<close>,
  taken from the left and not overlapping. Either \<open>old\<close> does not occur in \<open>s\<close>, and
  \<open>r\<close> is \<open>s\<close>; or \<open>s\<close> splits at the leftmost occurrence of \<open>old\<close>, that occurrence is
  gone, what is before it stays, and the same holds of what is after it.
\<close>

inductive occurrences_removed :: "gostring \<Rightarrow> gostring \<Rightarrow> gostring \<Rightarrow> bool" for old where
  absent: "\<not> sublist old s \<Longrightarrow> occurrences_removed old s s"
| leftmost:
    "\<forall>i < length pre. \<not> prefix old (drop i (pre @ old @ rest)) \<Longrightarrow>
     occurrences_removed old rest r \<Longrightarrow>
     occurrences_removed old (pre @ old @ rest) (pre @ r)"

text \<open>A text whose runes take one byte each in UTF-8: byte offsets and rune offsets agree.\<close>

definition single_byte :: "rune list \<Rightarrow> bool" where
  "single_byte l = (\<forall>r \<in> set l. 0 \<le> r \<and> r < 128)"

text \<open>Sample collaborators: a history whose lines cannot be read, a search that moves the cursor.\<close>

definition unreadable :: History where
  "unreadable = \<lparr>Len = 1, GetLine = (\<lambda>i. Inl (runes ''no such line''))\<rparr>"

definition wandering :: substrPos where
  "wandering s c forward = (if forward then (- 1, s\<lparr>pos := pos s + 5\<rparr>) else (0, s\<lparr>pos := 0\<rparr>))"

section \<open>Evaluation\<close>

lemmas evals = editing_def runes_def ch_def is_blank_def string_of_runes_def scalar_def len_def
  go_index_def len_string_def utf8_len_def runes_of_string_def go_slice_def slice_from_def
  slice_to_def

section \<open>The cursor invariant\<close>

text \<open>
  The character motions and the insertion of a key keep the cursor in the line;
  \<^verbatim>\<open>vimDeleteToken\<close> does as long as it leaves the line non-empty.
\<close>

lemma forwardChar_cursor_ok: "cursor_ok rl \<Longrightarrow> cursor_ok (forwardChar rl)"
  by (simp add: forwardChar_def cursor_ok_def)

lemma backwardChar_cursor_ok: "cursor_ok rl \<Longrightarrow> cursor_ok (backwardChar rl)"
  by (simp add: backwardChar_def cursor_ok_def)

lemma selfInsert_cursor_ok:
  assumes "cursor_ok (removeSuffixInserted rl)"
  shows "\<exists>rl'. selfInsert charCtrlA charCtrlUnderscore removeSuffixInserted rl = Some rl' \<and> cursor_ok rl'"
  using assms
  by (auto simp: selfInsert_def Let_def cursor_ok_def len_def slice_from_def slice_to_def go_slice_def)

lemma vimDeleteToken_cursor_ok:
  assumes "cursor_ok rl" "vimDeleteToken tok r rl = Some (b, rl')" "line rl' \<noteq> []"
  shows "cursor_ok rl'"
  using assms
  by (auto simp: vimDeleteToken_def Let_def cursor_ok_def len_def
      split: prod.splits if_splits option.splits)

text \<open>
  C1. Every editing operation keeps the cursor inside the line,
  \<open>0 \<le> pos \<le> len(line)\<close>, \<^verbatim>\<open>vimDeleteToken\<close> included. The code does not: on the line
  \<^verbatim>\<open>x\<close> with the cursor at 1, \<^verbatim>\<open>vimDeleteToken('1')\<close> removes the only token, finds the
  cursor beyond the now empty line and sets it to \<^verbatim>\<open>len(rl.line) - 1\<close>, which is -1.
\<close>

theorem vimDeleteToken_cursor_below_zero:
  "cursor_ok (editing (runes ''x'') 1) \<and>
   vimDeleteToken tokeniseSplitSpaces_model (ch CHR ''1'') (editing (runes ''x'') 1)
     = Some (True, editing [] (- 1)) \<and>
   \<not> cursor_ok (editing [] (- 1))"
  by (simp add: vimDeleteToken_def tokeniseSplitSpaces_model_def cursor_ok_def
      strings_ReplaceAll_def replaceScan.simps evals)

section \<open>Motions\<close>

text \<open>
  The brace motions find the nearest brace among the runes they read: those after the
  cursor, and those before it from index 1 on. Both stay in the buffer.
\<close>

lemma nextBraceLoop_spec:
  "0 \<le> i \<Longrightarrow>
   \<exists>d. nextBraceLoop l p i = Some d \<and>
       ((d = 0 \<and> (\<forall>j. i \<le> j \<and> j < len l \<longrightarrow> l ! nat j \<noteq> ch CHR ''{'')) \<or>
        (i \<le> p + d \<and> p + d < len l \<and> l ! nat (p + d) = ch CHR ''{'' \<and>
         (\<forall>j. i \<le> j \<and> j < p + d \<longrightarrow> l ! nat j \<noteq> ch CHR ''{'')))"
proof (induction l p i rule: nextBraceLoop.induct)
  case (1 l p i)
  show ?case
  proof (cases "i < len l")
    case False
    then show ?thesis by (subst nextBraceLoop.simps) simp
  next
    case True
    with 1(2) have ix: "go_index l i = Some (l ! nat i)" by (simp add: go_index_def)
    show ?thesis
    proof (cases "l ! nat i = ch CHR ''{''")
      case b: True
      have "nextBraceLoop l p i = Some (i - p)"
        by (subst nextBraceLoop.simps) (simp add: True ix b)
      with True b show ?thesis by auto
    next
      case nb: False
      have eq: "nextBraceLoop l p i = nextBraceLoop l p (i + 1)"
        by (subst nextBraceLoop.simps) (simp add: True ix nb)
      from 1(1)[OF True ix nb] 1(2)
      obtain d where d: "nextBraceLoop l p (i + 1) = Some d"
        and alt: "(d = 0 \<and> (\<forall>j. i + 1 \<le> j \<and> j < len l \<longrightarrow> l ! nat j \<noteq> ch CHR ''{'')) \<or>
          (i + 1 \<le> p + d \<and> p + d < len l \<and> l ! nat (p + d) = ch CHR ''{'' \<and>
           (\<forall>j. i + 1 \<le> j \<and> j < p + d \<longrightarrow> l ! nat j \<noteq> ch CHR ''{''))"
        by auto
      have step: "\<And>j. i \<le> j \<Longrightarrow> j = i \<or> i + 1 \<le> j" by arith
      from alt show ?thesis
      proof
        assume a: "d = 0 \<and> (\<forall>j. i + 1 \<le> j \<and> j < len l \<longrightarrow> l ! nat j \<noteq> ch CHR ''{'')"
        then have "\<forall>j. i \<le> j \<and> j < len l \<longrightarrow> l ! nat j \<noteq> ch CHR ''{''"
          using nb step by blast
        with a d eq show ?thesis by auto
      next
        assume a: "i + 1 \<le> p + d \<and> p + d < len l \<and> l ! nat (p + d) = ch CHR ''{'' \<and>
           (\<forall>j. i + 1 \<le> j \<and> j < p + d \<longrightarrow> l ! nat j \<noteq> ch CHR ''{'')"
        then have "\<forall>j. i \<le> j \<and> j < p + d \<longrightarrow> l ! nat j \<noteq> ch CHR ''{''"
          using nb step by blast
        with a d eq show ?thesis by auto
      qed
    qed
  qed
qed

lemma prevBraceLoop_spec:
  "0 \<le> i \<Longrightarrow> i < len l \<Longrightarrow>
   \<exists>d. prevBraceLoop l p i = Some d \<and>
       ((d = 0 \<and> (\<forall>j. 1 \<le> j \<and> j \<le> i \<longrightarrow> l ! nat j \<noteq> ch CHR ''{'')) \<or>
        (1 \<le> p + d \<and> p + d \<le> i \<and> l ! nat (p + d) = ch CHR ''{'' \<and>
         (\<forall>j. p + d < j \<and> j \<le> i \<longrightarrow> l ! nat j \<noteq> ch CHR ''{'')))"
proof (induction l p i rule: prevBraceLoop.induct)
  case (1 l p i)
  show ?case
  proof (cases "i = 0")
    case True
    then show ?thesis by (subst prevBraceLoop.simps) simp
  next
    case False
    with 1(2,3) have ix: "go_index l i = Some (l ! nat i)" by (simp add: go_index_def)
    show ?thesis
    proof (cases "l ! nat i = ch CHR ''{''")
      case b: True
      have "prevBraceLoop l p i = Some (i - p)"
        by (subst prevBraceLoop.simps) (simp add: False ix b)
      with False b 1(2) show ?thesis by auto
    next
      case nb: False
      have eq: "prevBraceLoop l p i = prevBraceLoop l p (i - 1)"
        by (subst prevBraceLoop.simps) (simp add: False ix nb)
      from 1(1)[OF False ix nb] 1(2,3) False
      obtain d where d: "prevBraceLoop l p (i - 1) = Some d"
        and alt: "(d = 0 \<and> (\<forall>j. 1 \<le> j \<and> j \<le> i - 1 \<longrightarrow> l ! nat j \<noteq> ch CHR ''{'')) \<or>
          (1 \<le> p + d \<and> p + d \<le> i - 1 \<and> l ! nat (p + d) = ch CHR ''{'' \<and>
           (\<forall>j. p + d < j \<and> j \<le> i - 1 \<longrightarrow> l ! nat j \<noteq> ch CHR ''{''))"
        by auto
      have step: "\<And>j. j \<le> i \<Longrightarrow> j = i \<or> j \<le> i - 1" by arith
      from alt show ?thesis
      proof
        assume a: "d = 0 \<and> (\<forall>j. 1 \<le> j \<and> j \<le> i - 1 \<longrightarrow> l ! nat j \<noteq> ch CHR ''{'')"
        then have "\<forall>j. 1 \<le> j \<and> j \<le> i \<longrightarrow> l ! nat j \<noteq> ch CHR ''{''"
          using nb step by blast
        with a d eq show ?thesis by auto
      next
        assume a: "1 \<le> p + d \<and> p + d \<le> i - 1 \<and> l ! nat (p + d) = ch CHR ''{'' \<and>
           (\<forall>j. p + d < j \<and> j \<le> i - 1 \<longrightarrow> l ! nat j \<noteq> ch CHR ''{'')"
        then have "\<forall>j. p + d < j \<and> j \<le> i \<longrightarrow> l ! nat j \<noteq> ch CHR ''{''"
          using nb step by blast
        with a d eq show ?thesis by auto
      qed
    qed
  qed
qed

lemma viJumpNextBrace_nearest:
  assumes "cursor_ok rl"
  shows "\<exists>d. viJumpNextBrace rl = Some d \<and>
       ((d = 0 \<and> (\<forall>j. pos rl < j \<and> j < len (line rl) \<longrightarrow> line rl ! nat j \<noteq> ch CHR ''{'')) \<or>
        (pos rl < pos rl + d \<and> pos rl + d < len (line rl) \<and>
         line rl ! nat (pos rl + d) = ch CHR ''{'' \<and>
         (\<forall>j. pos rl < j \<and> j < pos rl + d \<longrightarrow> line rl ! nat j \<noteq> ch CHR ''{'')))"
proof (cases "pos rl \<ge> len (line rl) - 1")
  case True
  then show ?thesis by (auto simp: viJumpNextBrace_def)
next
  case False
  have "0 \<le> pos rl + 1" using assms by (simp add: cursor_ok_def)
  from nextBraceLoop_spec [OF this, of "line rl" "pos rl"] False
  show ?thesis by (auto simp: viJumpNextBrace_def)
qed

lemma viJumpPreviousBrace_nearest:
  assumes "cursor_ok rl"
  shows "\<exists>d. viJumpPreviousBrace rl = Some d \<and>
       ((d = 0 \<and> (\<forall>j. 1 \<le> j \<and> j < pos rl \<longrightarrow> line rl ! nat j \<noteq> ch CHR ''{'')) \<or>
        (1 \<le> pos rl + d \<and> pos rl + d < pos rl \<and>
         line rl ! nat (pos rl + d) = ch CHR ''{'' \<and>
         (\<forall>j. pos rl + d < j \<and> j < pos rl \<longrightarrow> line rl ! nat j \<noteq> ch CHR ''{'')))"
proof (cases "pos rl = 0")
  case True
  then show ?thesis by (auto simp: viJumpPreviousBrace_def)
next
  case False
  have "0 \<le> pos rl - 1" "pos rl - 1 < len (line rl)"
    using assms False by (simp_all add: cursor_ok_def)
  from prevBraceLoop_spec [OF this, of "pos rl"] False
  show ?thesis by (auto simp: viJumpPreviousBrace_def)
qed

lemma brace_motions_in_bounds:
  assumes "cursor_ok rl"
  shows "(\<exists>d. viJumpPreviousBrace rl = Some d \<and> 0 \<le> pos rl + d \<and> pos rl + d \<le> len (line rl)) \<and>
         (\<exists>d. viJumpNextBrace rl = Some d \<and> 0 \<le> pos rl + d \<and> pos rl + d \<le> len (line rl))"
  using viJumpPreviousBrace_nearest [OF assms] viJumpNextBrace_nearest [OF assms] assms
  by (auto simp: cursor_ok_def)

text \<open>
  The word and bracket motions stay in the buffer when the tokeniser keeps its contract
  and every rune of the line takes one byte.
\<close>

lemma len_string_single_byte: "single_byte t \<Longrightarrow> len_string t = len t"
  by (induction t) (auto simp: single_byte_def len_string_def len_def utf8_len_def)

lemma string_of_runes_single_byte: "single_byte l \<Longrightarrow> string_of_runes l = l"
  by (induction l) (auto simp: single_byte_def string_of_runes_def scalar_def)

lemma single_byte_token: "single_byte (concat split) \<Longrightarrow> t \<in> set split \<Longrightarrow> single_byte t"
  by (auto simp: single_byte_def)

lemma single_byte_rTrim: "single_byte t \<Longrightarrow> single_byte (rTrimWhiteSpace t)"
  by (auto simp: single_byte_def rTrimWhiteSpace_def dest: set_dropWhileD)

lemma len_rTrim: "len (rTrimWhiteSpace t) \<le> len t"
  by (simp add: rTrimWhiteSpace_def len_def length_dropWhile_le [of is_blank "rev t", simplified])

lemma len_concat_take_Suc:
  "n < length split \<Longrightarrow> len (concat (take (Suc n) split)) = len (concat (take n split)) + len (split ! n)"
  by (simp add: take_Suc_conv_app_nth len_def)

lemma len_concat_take_le: "len (concat (take n split)) \<le> len (concat split)"
proof -
  have "concat split = concat (take n split) @ concat (drop n split)"
    by (metis append_take_drop_id concat_append)
  then have "length (concat split) = length (concat (take n split)) + length (concat (drop n split))"
    by (metis length_append)
  then show ?thesis by (simp add: len_def)
qed

lemma token_end_le:
  assumes "n < length split"
  shows "len (concat (take n split)) + len (split ! n) \<le> len (concat split)"
  using len_concat_take_Suc [OF assms] len_concat_take_le [of "Suc n" split] by simp

lemma token_nonempty: "[] \<notin> set split \<Longrightarrow> n < length split \<Longrightarrow> 1 \<le> len (split ! n)"
  by (cases "split ! n") (auto simp: len_def dest: nth_mem)

lemma viJumpB_in_bounds:
  assumes ok: "cursor_ok rl" and sb: "single_byte (line rl)"
    and tk: "tokenises (line rl) (pos rl) (tokeniser (line rl) (pos rl))"
  shows "\<exists>d. viJumpB tokeniser rl = Some d \<and> 0 \<le> pos rl + d \<and> pos rl + d \<le> len (line rl)"
proof -
  obtain split i off where t: "tokeniser (line rl) (pos rl) = (split, i, off)"
    by (cases "tokeniser (line rl) (pos rl)") auto
  show ?thesis
  proof (cases "split = []")
    case True
    with t ok show ?thesis by (simp add: viJumpB_def len_def cursor_ok_def)
  next
    case False
    from tk t False sb have c: "concat split = line rl" and ne: "[] \<notin> set split"
      and i: "0 \<le> i" "i < len split" and off: "0 \<le> off" "off \<le> len (split ! nat i)"
      and p: "len (concat (take (nat i) split)) + off = pos rl"
      by (simp_all add: tokenises_def string_of_runes_single_byte)
    have sbs: "single_byte (concat split)" using sb c by simp
    show ?thesis
    proof (cases "off = 0")
      case o: True
      show ?thesis
      proof (cases "i = 0")
        case True
        with t o False ok show ?thesis by (simp add: viJumpB_def len_def cursor_ok_def)
      next
        case i0: False
        define n where "n = nat (i - 1)"
        have n: "n < length split" "nat i = Suc n" "i - 1 = int n"
          using i i0 by (simp_all add: n_def len_def)
        have ix: "go_index split (i - 1) = Some (split ! n)"
          using n i by (simp add: go_index_def len_def)
        have "single_byte (split ! n)" using sbs n(1) by (auto intro: single_byte_token)
        then have ls: "len_string (split ! n) = len (split ! n)" by (rule len_string_single_byte)
        have "pos rl = len (concat (take n split)) + len (split ! n)"
          using p o n len_concat_take_Suc [OF n(1)] by simp
        moreover have "0 \<le> len (concat (take n split))" by (simp add: len_def)
        ultimately show ?thesis
          using t o i0 False ok ix ls by (simp add: viJumpB_def len_def cursor_ok_def)
      qed
    next
      case o: False
      have "0 \<le> len (concat (take (nat i) split))" by (simp add: len_def)
      with t o False ok p off show ?thesis by (simp add: viJumpB_def len_def cursor_ok_def)
    qed
  qed
qed

lemma viJumpW_in_bounds:
  assumes ok: "cursor_ok rl" and sb: "single_byte (line rl)"
    and tk: "tokenises (line rl) (pos rl) (tokeniser (line rl) (pos rl))"
  shows "\<exists>d. viJumpW tokeniser rl = Some d \<and> 0 \<le> pos rl + d \<and> pos rl + d \<le> len (line rl)"
proof -
  obtain split i off where t: "tokeniser (line rl) (pos rl) = (split, i, off)"
    by (cases "tokeniser (line rl) (pos rl)") auto
  show ?thesis
  proof (cases "split = []")
    case True
    with t ok show ?thesis by (simp add: viJumpW_def len_def cursor_ok_def)
  next
    case False
    from tk t False sb have c: "concat split = line rl" and ne: "[] \<notin> set split"
      and i: "0 \<le> i" "i < len split" and off: "0 \<le> off" "off \<le> len (split ! nat i)"
      and p: "len (concat (take (nat i) split)) + off = pos rl"
      by (simp_all add: tokenises_def string_of_runes_single_byte)
    have sbs: "single_byte (concat split)" using sb c by simp
    have n: "nat i < length split" using i by (simp add: len_def)
    have ix: "go_index split i = Some (split ! nat i)" using i by (simp add: go_index_def)
    have "single_byte (split ! nat i)" using sbs n by (auto intro: single_byte_token)
    then have ls: "len_string (split ! nat i) = len (split ! nat i)" by (rule len_string_single_byte)
    have e: "len (concat (take (nat i) split)) + len (split ! nat i) \<le> len (line rl)"
      using token_end_le [OF n] c by simp
    show ?thesis
      using t False ok ix ls e p off by (auto simp: viJumpW_def len_def cursor_ok_def)
  qed
qed

lemma viJumpBracket_in_bounds:
  assumes ok: "cursor_ok rl" and sb: "single_byte (line rl)"
    and tk: "tokenises (line rl) (pos rl) (tokeniseBrackets (line rl) (pos rl))"
  shows "\<exists>d. viJumpBracket tokeniseBrackets rl = Some d \<and> 0 \<le> pos rl + d \<and> pos rl + d \<le> len (line rl)"
proof -
  obtain split i off where t: "tokeniseBrackets (line rl) (pos rl) = (split, i, off)"
    by (cases "tokeniseBrackets (line rl) (pos rl)") auto
  show ?thesis
  proof (cases "split = []")
    case True
    with t ok show ?thesis by (simp add: viJumpBracket_def len_def cursor_ok_def)
  next
    case False
    from tk t False sb have c: "concat split = line rl" and ne: "[] \<notin> set split"
      and i: "0 \<le> i" "i < len split" and off: "0 \<le> off" "off \<le> len (split ! nat i)"
      and p: "len (concat (take (nat i) split)) + off = pos rl"
      by (simp_all add: tokenises_def string_of_runes_single_byte)
    have sbs: "single_byte (concat split)" using sb c by simp
    have n: "nat i < length split" using i by (simp add: len_def)
    have ix: "go_index split i = Some (split ! nat i)" using i by (simp add: go_index_def)
    have "single_byte (split ! nat i)" using sbs n by (auto intro: single_byte_token)
    then have ls: "len_string (split ! nat i) = len (split ! nat i)" by (rule len_string_single_byte)
    have e: "len (concat (take (nat i) split)) + len (split ! nat i) \<le> len (line rl)"
      using token_end_le [OF n] c by simp
    have z: "0 \<le> len (concat (take (nat i) split))" by (simp add: len_def)
    show ?thesis
      using t False ok ix ls e p off z by (auto simp: viJumpBracket_def len_def cursor_ok_def)
  qed
qed

lemma viJumpE_in_bounds:
  assumes ok: "cursor_ok rl" and sb: "single_byte (line rl)"
    and tk: "tokenises (line rl) (pos rl) (tokeniser (line rl) (pos rl))"
  shows "\<exists>d. viJumpE tokeniser rl = Some d \<and> 0 \<le> pos rl + d \<and> pos rl + d \<le> len (line rl)"
proof -
  obtain split i off where t: "tokeniser (line rl) (pos rl) = (split, i, off)"
    by (cases "tokeniser (line rl) (pos rl)") auto
  show ?thesis
  proof (cases "split = []")
    case True
    with t ok show ?thesis by (simp add: viJumpE_def len_def cursor_ok_def)
  next
    case False
    from tk t False sb have c: "concat split = line rl" and ne: "[] \<notin> set split"
      and i: "0 \<le> i" "i < len split" and off: "0 \<le> off" "off \<le> len (split ! nat i)"
      and p: "len (concat (take (nat i) split)) + off = pos rl"
      by (simp_all add: tokenises_def string_of_runes_single_byte)
    have sbs: "single_byte (concat split)" using sb c by simp
    have n: "nat i < length split" using i by (simp add: len_def)
    have ix: "go_index split i = Some (split ! nat i)" using i by (simp add: go_index_def)
    define tkn where "tkn = split ! nat i"
    define word where "word = rTrimWhiteSpace tkn"
    have sbt: "single_byte tkn" using sbs n by (auto simp: tkn_def intro: single_byte_token)
    then have ls: "len_string tkn = len tkn" by (rule len_string_single_byte)
    have lw: "len_string word = len word"
      using sbt by (simp add: word_def len_string_single_byte single_byte_rTrim)
    have ww: "len word \<le> len tkn" by (simp add: word_def len_rTrim)
    have e: "len (concat (take (nat i) split)) + len tkn \<le> len (line rl)"
      using token_end_le [OF n] c by (simp add: tkn_def)
    have z: "0 \<le> len (concat (take (nat i) split))" by (simp add: len_def)
    have nz: "len split \<noteq> 0" using False by (simp add: len_def)
    consider (last) "i = len split - 1 \<and> off \<ge> len_string word - 1"
      | (spill) "\<not> (i = len split - 1 \<and> off \<ge> len_string word - 1)" "off \<ge> len_string word - 1"
      | (inside) "off < len_string word - 1"
      by linarith
    then show ?thesis
    proof cases
      case last
      have "viJumpE tokeniser rl = Some 0"
        unfolding viJumpE_def t using nz ix last by (auto simp: Let_def word_def tkn_def)
      then show ?thesis
        using ok by (simp add: cursor_ok_def)
    next
      case spill
      then have il: "i \<noteq> len split - 1" by auto
      then have n1: "Suc (nat i) < length split" using i by (simp add: len_def)
      have ix1: "go_index split (i + 1) = Some (split ! Suc (nat i))"
        using n1 i by (simp add: go_index_def len_def nat_add_distrib)
      define u where "u = split ! Suc (nat i)"
      define word' where "word' = rTrimWhiteSpace u"
      have sbu: "single_byte u" using sbs n1 by (auto simp: u_def intro: single_byte_token)
      have lw': "len_string word' = len word'"
        using sbu by (simp add: word'_def len_string_single_byte single_byte_rTrim)
      have ww': "len word' \<le> len u" by (simp add: word'_def len_rTrim)
      have z': "0 \<le> len word'" by (simp add: len_def)
      have e1: "len (concat (take (Suc (nat i)) split)) + len u \<le> len (line rl)"
        using token_end_le [OF n1] c by (simp add: u_def)
      have s1: "len (concat (take (Suc (nat i)) split)) = len (concat (take (nat i) split)) + len tkn"
        using len_concat_take_Suc [OF n] by (simp add: tkn_def)
      have t1: "1 \<le> len tkn" using token_nonempty [OF ne n] by (simp add: tkn_def)
      have r: "viJumpE tokeniser rl = Some (len_string tkn - off + (len_string word' - 1))"
        using t nz ix ix1 spill il
        by (simp add: viJumpE_def tkn_def [symmetric] word_def [symmetric] u_def [symmetric]
            word'_def [symmetric] Let_def)
      show ?thesis
        using r ls lw' ww' z' e1 s1 t1 p z by auto
    next
      case inside
      then have r: "viJumpE tokeniser rl = Some (len_string word - off - 1)"
        using t nz ix by (simp add: viJumpE_def tkn_def [symmetric] word_def [symmetric] Let_def)
      show ?thesis
        using r inside lw ww e p z off by auto
    qed
  qed
qed

text \<open>
  C2. Every motion returns an offset \<open>d\<close> with \<open>0 \<le> pos + d \<le> len(buffer)\<close>. The word
  motions measure tokens with \<^verbatim>\<open>len\<close> of a string, which counts bytes, while the cursor
  counts runes: on three times U+00E9 (two bytes each), a blank and \<^verbatim>\<open>x\<close>, with the cursor at 0,
  \<^verbatim>\<open>viJumpW\<close> returns 7, the byte length of the first token.
\<close>

theorem viJumpW_offset_past_buffer:
  "tokenises [233, 233, 233, 32, 120] 0 (tokeniseSplitSpaces_model [233, 233, 233, 32, 120] 0) \<and>
   cursor_ok (editing [233, 233, 233, 32, 120] 0) \<and>
   viJumpW tokeniseSplitSpaces_model (editing [233, 233, 233, 32, 120] 0) = Some 7 \<and>
   \<not> (pos (editing [233, 233, 233, 32, 120] 0) + 7 \<le> len (line (editing [233, 233, 233, 32, 120] 0)))"
  by (simp add: viJumpW_def tokenises_def tokeniseSplitSpaces_model_def cursor_ok_def evals)

text \<open>
  C8. \<^verbatim>\<open>viJumpPreviousBrace\<close> returns the offset to the nearest \<^verbatim>\<open>{\<close> before the
  cursor, and 0 only when there is none. Its loop stops at \<^verbatim>\<open>i != 0\<close> and never reads
  the first rune: on \<^verbatim>\<open>{ab\<close> with the cursor at 2 it returns 0.
\<close>

theorem viJumpPreviousBrace_skips_first_rune:
  "cursor_ok (editing (runes ''{ab'') 2) \<and>
   go_index (line (editing (runes ''{ab'') 2)) 0 = Some (ch CHR ''{'') \<and>
   viJumpPreviousBrace (editing (runes ''{ab'') 2) = Some 0"
  by (simp add: viJumpPreviousBrace_def cursor_ok_def evals)

section \<open>Selection\<close>

text \<open>
  Whenever \<^verbatim>\<open>getSelectionPos\<close> returns, the region is in the line and ordered; outside
  visual-line mode it always returns.
\<close>

lemma visualLineLoop_ge: "0 \<le> i \<Longrightarrow> epos \<le> visualLineLoop cs i epos"
proof (induction cs arbitrary: i epos)
  case Nil
  then show ?case by simp
next
  case (Cons c cs)
  from Cons.IH [of "i + 1" "epos + i"] Cons.prems show ?case by auto
qed

lemma getSelectionPos_bounds:
  assumes "cursor_ok rl" "getSelectionPos rl = Some (bpos, epos, cpos)"
  shows "0 \<le> bpos \<and> bpos \<le> epos \<and> epos \<le> len (line rl) \<and> cpos = bpos"
proof (cases "visualLine rl")
  case False
  with assms show ?thesis
    by (auto simp: getSelectionPos_def cursor_ok_def Let_def split: if_splits)
next
  case True
  define e0 where "e0 = (if mark rl < pos rl then pos rl + 1 else mark rl)"
  from assms(2) True obtain rest where r: "slice_from (line rl) e0 = Some rest"
    by (auto simp: getSelectionPos_def e0_def Let_def split: if_splits option.splits)
  then have e0: "0 \<le> e0" by (auto simp: slice_from_def go_slice_def split: if_splits)
  from visualLineLoop_ge [of 0 e0 rest] e0 have "0 \<le> visualLineLoop rest 0 e0" by simp
  with assms(2) True r show ?thesis
    by (auto simp: getSelectionPos_def e0_def Let_def len_def split: if_splits)
qed

lemma getSelectionPos_returns:
  assumes "\<not> visualLine rl"
  shows "\<exists>bpos epos. getSelectionPos rl = Some (bpos, epos, bpos)"
  using assms by (simp add: getSelectionPos_def Let_def split: prod.splits)

text \<open>
  C3. \<^verbatim>\<open>getSelectionPos\<close> returns \<open>0 \<le> bpos \<le> epos \<le> len(line)\<close> for every mark and
  every cursor in the line, in visual-line mode too. In visual-line mode the code slices
  \<^verbatim>\<open>rl.line[epos:]\<close> before it clamps \<open>epos\<close>: with the cursor at the end of \<^verbatim>\<open>ab\<close> and
  the mark at 0, \<open>epos\<close> is 3 and the slice panics.
\<close>

theorem getSelectionPos_visual_line_panics:
  "cursor_ok ((editing (runes ''ab'') 2)\<lparr>mark := 0, visualLine := True\<rparr>) \<and>
   getSelectionPos ((editing (runes ''ab'') 2)\<lparr>mark := 0, visualLine := True\<rparr>) = None"
  by (simp add: getSelectionPos_def cursor_ok_def evals)

text \<open>
  C7, as the specification has it: when both pairs were found, the outermost pair is
  returned. Two pairs can cross, as the quotes around \<^verbatim>\<open>b\<close> in \<^verbatim>\<open>"a 'b" c'\<close> do (double
  quotes at 0 and 5, single quotes at 3 and 8): neither is outermost, and the code
  returns -1 twice, the answer for no pair at all.
\<close>

theorem adjustSurroundQuotes_crossing_pairs:
  "found 0 5 \<and> found 3 8 \<and> adjustSurroundQuotes 0 5 3 8 = (- 1, - 1) \<and>
   adjustSurroundQuotes 0 5 3 8 \<noteq> (0, 5) \<and> adjustSurroundQuotes 0 5 3 8 \<noteq> (3, 8)"
  by (simp add: adjustSurroundQuotes_def found_def)

text \<open>
  C7, amended. \<^verbatim>\<open>adjustSurroundQuotes\<close>, on positions that are indices or -1: when both
  pairs were found and one of them starts before and ends after the other, that pair is
  returned; when both were found and neither does, both results are -1; when exactly
  one pair was found, that pair is returned; when neither was found, both results are
  -1.
\<close>

theorem adjustSurroundQuotes_outermost:
  assumes "- 1 \<le> dBpos" "- 1 \<le> dEpos" "- 1 \<le> sBpos" "- 1 \<le> sEpos"
  shows "(found dBpos dEpos \<and> found sBpos sEpos \<and> dBpos < sBpos \<and> sEpos < dEpos \<longrightarrow>
            adjustSurroundQuotes dBpos dEpos sBpos sEpos = (dBpos, dEpos)) \<and>
         (found dBpos dEpos \<and> found sBpos sEpos \<and> sBpos < dBpos \<and> dEpos < sEpos \<longrightarrow>
            adjustSurroundQuotes dBpos dEpos sBpos sEpos = (sBpos, sEpos)) \<and>
         (found dBpos dEpos \<and> found sBpos sEpos \<and>
          \<not> (dBpos < sBpos \<and> sEpos < dEpos) \<and> \<not> (sBpos < dBpos \<and> dEpos < sEpos) \<longrightarrow>
            adjustSurroundQuotes dBpos dEpos sBpos sEpos = (- 1, - 1)) \<and>
         (found dBpos dEpos \<and> \<not> found sBpos sEpos \<longrightarrow>
            adjustSurroundQuotes dBpos dEpos sBpos sEpos = (dBpos, dEpos)) \<and>
         (\<not> found dBpos dEpos \<and> found sBpos sEpos \<longrightarrow>
            adjustSurroundQuotes dBpos dEpos sBpos sEpos = (sBpos, sEpos)) \<and>
         (\<not> found dBpos dEpos \<and> \<not> found sBpos sEpos \<longrightarrow>
            adjustSurroundQuotes dBpos dEpos sBpos sEpos = (- 1, - 1))"
  using assms unfolding adjustSurroundQuotes_def found_def Let_def by auto

theorem adjustSurroundQuotes_outermost_witness:
  "adjustSurroundQuotes 0 9 3 5 = (0, 9) \<and> adjustSurroundQuotes 3 5 0 9 = (0, 9) \<and>
   adjustSurroundQuotes 1 4 2 6 = (- 1, - 1) \<and>
   adjustSurroundQuotes 2 6 (- 1) (- 1) = (2, 6) \<and> adjustSurroundQuotes (- 1) 4 1 7 = (1, 7) \<and>
   adjustSurroundQuotes (- 1) (- 1) 3 (- 1) = (- 1, - 1)"
  using adjustSurroundQuotes_outermost [of 0 9 3 5] adjustSurroundQuotes_outermost [of 3 5 0 9]
    adjustSurroundQuotes_outermost [of 1 4 2 6]
    adjustSurroundQuotes_outermost [of 2 6 "- 1" "- 1"]
    adjustSurroundQuotes_outermost [of "- 1" 4 1 7]
    adjustSurroundQuotes_outermost [of "- 1" "- 1" 3 "- 1"]
  by (simp add: found_def)

text \<open>
  C10. \<^verbatim>\<open>searchSurround\<close> leaves the cursor where it was and does not modify the line,
  whatever its searches do to the cursor, as long as they leave the line alone.
\<close>

theorem searchSurround_restores_cursor:
  assumes "\<And>s c f. line (snd (substrPos s c f)) = line s"
  shows "pos (snd (searchSurround substrPos r rl)) = pos rl \<and>
         line (snd (searchSurround substrPos r rl)) = line rl"
  by (simp add: searchSurround_def Let_def case_prod_beta assms)

theorem searchSurround_restores_cursor_witness:
  "(\<forall>s c f. line (snd (wandering s c f)) = line s) \<and>
   pos (snd (searchSurround wandering (ch CHR ''('') (editing (runes ''(a)'') 1))) = 1 \<and>
   line (snd (searchSurround wandering (ch CHR ''('') (editing (runes ''(a)'') 1))) = runes ''(a)''"
proof -
  have h: "\<And>s c f. line (snd (wandering s c f)) = line s"
    by (simp add: wandering_def)
  from searchSurround_restores_cursor [of wandering "ch CHR ''(''" "editing (runes ''(a)'') 1", OF h] h
  show ?thesis by (simp add: editing_def)
qed

section \<open>Numbered-token deletion\<close>

text \<open>
  \<^verbatim>\<open>strings.ReplaceAll(s, old, "")\<close> with a non-empty \<open>old\<close> returns \<open>s\<close> when \<open>old\<close> does
  not occur in it; at the leftmost occurrence it keeps what is before, drops the
  occurrence and goes on with what is after. So its result is the one string that is
  \<open>s\<close> with the occurrences of \<open>old\<close> removed, and it differs from \<open>s\<close> exactly when
  \<open>old\<close> occurs. With an empty \<open>old\<close> it returns \<open>s\<close>.
\<close>

lemma replaceScan_Nil: "replaceScan old new [] = []"
  by (subst replaceScan.simps) simp

lemma replaceScan_prefix:
  "old \<noteq> [] \<Longrightarrow> prefix old s \<Longrightarrow>
   replaceScan old new s = new @ replaceScan old new (drop (length old) s)"
  by (subst replaceScan.simps) (auto simp: prefix_def)

lemma replaceScan_step:
  "old \<noteq> [] \<Longrightarrow> \<not> prefix old (c # cs) \<Longrightarrow>
   replaceScan old new (c # cs) = c # replaceScan old new cs"
  by (subst replaceScan.simps) simp

lemma replaceScan_absent:
  "old \<noteq> [] \<Longrightarrow> \<not> sublist old s \<Longrightarrow> replaceScan old new s = s"
proof (induction s)
  case Nil
  show ?case by (rule replaceScan_Nil)
next
  case (Cons c cs)
  from Cons.prems(2) have np: "\<not> prefix old (c # cs)" and ns: "\<not> sublist old cs"
    by (auto simp: sublist_Cons_right)
  from Cons.IH [OF Cons.prems(1) ns] replaceScan_step [OF Cons.prems(1) np]
  show ?case by simp
qed

lemma replaceScan_leftmost:
  "old \<noteq> [] \<Longrightarrow> \<forall>i < length pre. \<not> prefix old (drop i (pre @ old @ rest)) \<Longrightarrow>
   replaceScan old new (pre @ old @ rest) = pre @ new @ replaceScan old new rest"
proof (induction pre)
  case Nil
  from replaceScan_prefix [OF Nil(1), of "old @ rest" new] show ?case by simp
next
  case (Cons c pre)
  from Cons.prems(2) have np: "\<not> prefix old (c # pre @ old @ rest)"
    by force
  have "\<forall>i < length pre. \<not> prefix old (drop i (pre @ old @ rest))"
  proof (intro allI impI)
    fix i assume "i < length pre"
    then have "Suc i < length (c # pre)" by simp
    with Cons.prems(2) have "\<not> prefix old (drop (Suc i) ((c # pre) @ old @ rest))" by blast
    then show "\<not> prefix old (drop i (pre @ old @ rest))" by simp
  qed
  from Cons.IH [OF Cons.prems(1) this] replaceScan_step [OF Cons.prems(1) np]
  show ?case by simp
qed

lemma occurrences_removed_Cons:
  assumes "occurrences_removed old s r" "\<not> prefix old (c # s)"
  shows "occurrences_removed old (c # s) (c # r)"
  using assms
proof (cases rule: occurrences_removed.cases)
  case absent
  with assms(2) have "\<not> sublist old (c # s)" by (simp add: sublist_Cons_right)
  with absent show ?thesis by (auto intro: occurrences_removed.absent)
next
  case (leftmost pre rest r')
  have "\<forall>i < length (c # pre). \<not> prefix old (drop i ((c # pre) @ old @ rest))"
  proof (intro allI impI)
    fix i assume i: "i < length (c # pre)"
    show "\<not> prefix old (drop i ((c # pre) @ old @ rest))"
    proof (cases i)
      case 0
      with assms(2) leftmost(1) show ?thesis by simp
    next
      case (Suc j)
      with i leftmost(3) show ?thesis by simp
    qed
  qed
  from occurrences_removed.leftmost [OF this leftmost(4)] leftmost(1,2)
  show ?thesis by simp
qed

lemma replaceScan_removes:
  "old \<noteq> [] \<Longrightarrow> occurrences_removed old s (replaceScan old [] s)"
proof (induction s rule: length_induct)
  case (1 s)
  show ?case
  proof (cases s)
    case Nil
    with 1(2) show ?thesis
      by (auto simp: replaceScan_Nil intro: occurrences_removed.absent)
  next
    case (Cons c cs)
    show ?thesis
    proof (cases "prefix old s")
      case True
      then obtain rest where s: "s = old @ rest" by (auto simp: prefix_def)
      have "length rest < length s" using s 1(2) by simp
      with 1 have ih: "occurrences_removed old rest (replaceScan old [] rest)" by blast
      have "occurrences_removed old ([] @ old @ rest) ([] @ replaceScan old [] rest)"
        by (rule occurrences_removed.leftmost) (simp_all add: ih)
      moreover have "replaceScan old [] s = replaceScan old [] rest"
        using replaceScan_prefix [OF 1(2) True, of "[]"] s by simp
      ultimately show ?thesis using s by simp
    next
      case False
      have "length cs < length s" using Cons by simp
      with 1 have ih: "occurrences_removed old cs (replaceScan old [] cs)" by blast
      from occurrences_removed_Cons [OF ih] False Cons
        replaceScan_step [OF 1(2), of c cs "[]"]
      show ?thesis by simp
    qed
  qed
qed

lemma occurrences_removed_unique:
  "occurrences_removed old s r \<Longrightarrow> old \<noteq> [] \<Longrightarrow> r = replaceScan old [] s"
proof (induction rule: occurrences_removed.induct)
  case (absent s)
  then show ?case by (simp add: replaceScan_absent)
next
  case (leftmost pre rest r)
  from replaceScan_leftmost [OF leftmost(4) leftmost(1), of "[]"] leftmost(3) [OF leftmost(4)]
  show ?case by simp
qed

lemma occurrences_removed_shorter:
  "occurrences_removed old s r \<Longrightarrow> old \<noteq> [] \<Longrightarrow> sublist old s \<Longrightarrow> length r < length s"
proof (induction rule: occurrences_removed.induct)
  case (absent s)
  then show ?case by simp
next
  case (leftmost pre rest r)
  have "length r \<le> length rest"
  proof (cases "sublist old rest")
    case True
    with leftmost show ?thesis by simp
  next
    case False
    with leftmost(2) leftmost(4) have "r = rest"
      by (auto dest: occurrences_removed_unique simp: replaceScan_absent)
    then show ?thesis by simp
  qed
  with leftmost(4) show ?case by (cases old) auto
qed

lemma ReplaceAll_empty_old: "strings_ReplaceAll s [] [] = s"
  by (induction s) (simp_all add: strings_ReplaceAll_def)

lemma ReplaceAll_removes_occurrences:
  "old \<noteq> [] \<Longrightarrow> occurrences_removed old s r \<longleftrightarrow> r = strings_ReplaceAll s old []"
  by (auto simp: strings_ReplaceAll_def replaceScan_removes dest: occurrences_removed_unique)

lemma ReplaceAll_changes:
  "strings_ReplaceAll s old [] \<noteq> s \<longleftrightarrow> old \<noteq> [] \<and> sublist old s"
proof (cases "old = []")
  case True
  then show ?thesis by (simp add: ReplaceAll_empty_old)
next
  case False
  show ?thesis
  proof (cases "sublist old s")
    case True
    from occurrences_removed_shorter [OF replaceScan_removes [OF False] False True]
    show ?thesis using False True by (auto simp: strings_ReplaceAll_def)
  next
    case ns: False
    then show ?thesis using False by (simp add: strings_ReplaceAll_def replaceScan_absent)
  qed
qed

text \<open>
  C4, as the specification has it: \<^verbatim>\<open>vimDeleteToken\<close> removes exactly the first textual
  occurrence of the token. On \<^verbatim>\<open>a a\<close> the second token is \<^verbatim>\<open>a\<close>; the code leaves one
  blank, the line without the first occurrence is a blank and an \<^verbatim>\<open>a\<close>.
\<close>

theorem vimDeleteToken_removes_later_occurrence:
  "go_index (fst (tokeniseSplitSpaces_model (runes ''a a'') 0)) 1 = Some (runes ''a'') \<and>
   vimDeleteToken tokeniseSplitSpaces_model (ch CHR ''2'') (editing (runes ''a a'') 0)
     = Some (True, editing (runes '' '') 0) \<and>
   remove_first_occurrence (runes ''a'') (string_of_runes (runes ''a a'')) = runes '' a'' \<and>
   runes '' '' \<noteq> runes '' a''"
  by (simp add: vimDeleteToken_def tokeniseSplitSpaces_model_def
      strings_ReplaceAll_def replaceScan.simps evals)

text \<open>
  C4, amended: for a digit \<open>r\<close> from 1 to 9 whose token exists, \<^verbatim>\<open>vimDeleteToken\<close>
  removes every occurrence of the token's string from the line (from the left, not
  overlapping, as \<^verbatim>\<open>strings.ReplaceAll\<close> does) and returns true; when the digit exceeds
  the number of tokens, or the token is empty or does not occur in the line, so that
  the line would stay as it is, it returns false and the state is untouched.
\<close>

theorem vimDeleteToken_replaces_all:
  assumes "ch CHR ''1'' \<le> r" "r \<le> ch CHR ''9''"
  shows "(let tokens = fst (tok (line rl) 0); n = r - 48; s = string_of_runes (line rl) in
     (n > len tokens \<longrightarrow> vimDeleteToken tok r rl = Some (False, rl)) \<and>
     (n \<le> len tokens \<longrightarrow>
        (let old = tokens ! nat (n - 1) in
           (old = [] \<or> \<not> sublist old s \<longrightarrow> vimDeleteToken tok r rl = Some (False, rl)) \<and>
           (old \<noteq> [] \<and> sublist old s \<longrightarrow>
              (\<exists>rl'. vimDeleteToken tok r rl = Some (True, rl') \<and>
                     occurrences_removed old s (line rl') \<and> line rl' \<noteq> s)))))"
proof -
  obtain tokens i off where t: "tok (line rl) 0 = (tokens, i, off)"
    by (cases "tok (line rl) 0") auto
  have n: "1 \<le> r - 48" using assms(1) by (simp add: ch_def)
  define s where "s = string_of_runes (line rl)"
  define old where "old = tokens ! nat (r - 48 - 1)"
  have ix: "r - 48 \<le> len tokens \<Longrightarrow> go_index tokens (r - 48 - 1) = Some old"
    using n by (simp add: go_index_def old_def)
  have far: "r - 48 > len tokens \<Longrightarrow> vimDeleteToken tok r rl = Some (False, rl)"
    by (simp add: vimDeleteToken_def t Let_def)
  have same: "r - 48 \<le> len tokens \<Longrightarrow> old = [] \<or> \<not> sublist old s \<Longrightarrow>
      vimDeleteToken tok r rl = Some (False, rl)"
    using ReplaceAll_changes [of s old] ix
    by (auto simp: vimDeleteToken_def t Let_def s_def)
  have changed: "r - 48 \<le> len tokens \<Longrightarrow> old \<noteq> [] \<Longrightarrow> sublist old s \<Longrightarrow>
      \<exists>rl'. vimDeleteToken tok r rl = Some (True, rl') \<and>
            occurrences_removed old s (line rl') \<and> line rl' \<noteq> s"
  proof -
    assume a: "r - 48 \<le> len tokens" "old \<noteq> []" "sublist old s"
    have ne: "strings_ReplaceAll s old [] \<noteq> s" using a by (simp add: ReplaceAll_changes)
    have rm: "occurrences_removed old s (strings_ReplaceAll s old [])"
      using a(2) by (simp add: ReplaceAll_removes_occurrences)
    show ?thesis
      using ix [OF a(1)] ne rm a(1)
      by (auto simp: vimDeleteToken_def t Let_def s_def runes_of_string_def)
  qed
  show ?thesis
    using far same changed by (simp add: Let_def t s_def old_def)
qed

theorem vimDeleteToken_replaces_all_witness:
  "ch CHR ''1'' \<le> ch CHR ''2'' \<and> ch CHR ''3'' \<le> ch CHR ''9'' \<and>
   sublist (runes ''a'') (runes ''a a'') \<and>
   (\<exists>rl'. vimDeleteToken tokeniseSplitSpaces_model (ch CHR ''2'') (editing (runes ''a a'') 0)
      = Some (True, rl') \<and>
      occurrences_removed (runes ''a'') (runes ''a a'') (line rl') \<and> line rl' \<noteq> runes ''a a'') \<and>
   vimDeleteToken tokeniseSplitSpaces_model (ch CHR ''3'') (editing (runes ''a a'') 0)
      = Some (False, editing (runes ''a a'') 0)"
  using vimDeleteToken_replaces_all [of "ch CHR ''2''" tokeniseSplitSpaces_model "editing (runes ''a a'') 0"]
    vimDeleteToken_replaces_all [of "ch CHR ''3''" tokeniseSplitSpaces_model "editing (runes ''a a'') 0"]
  by (simp add: tokeniseSplitSpaces_model_def Let_def sublist_Cons_right evals)

section \<open>Keyword switching\<close>

text \<open>
  \<^verbatim>\<open>selectInWord\<close> on a rune that is not a blank selects a span around it. With the
  cursor on such a rune, no sign marker at the cursor and no switcher that changes the
  word, \<^verbatim>\<open>switchKeyword\<close> returns the state as it was; with the cursor at the end of the
  line it panics.
\<close>

lemma switchLoop_unchanged:
  "\<forall>sw \<in> set sws. \<not> fst (sw sel inc) \<Longrightarrow> switchLoop sws sel inc cpos bpos epos rl = Some rl"
  by (induction sws) (auto split: prod.splits)

lemma selectBackward_range:
  "- 1 \<le> bpos \<Longrightarrow> bpos < len l \<Longrightarrow>
   \<exists>b. selectBackward l pat bpos = Some b \<and> - 1 \<le> b \<and> b \<le> bpos \<and>
       (0 \<le> bpos \<and> pat (l ! nat bpos) \<longrightarrow> b < bpos)"
proof (induction l pat bpos rule: selectBackward.induct)
  case (1 l pat bpos)
  show ?case
  proof (cases "bpos \<ge> 0")
    case False
    then show ?thesis using 1(2) by (subst selectBackward.simps) simp
  next
    case True
    with 1(3) have ix: "go_index l bpos = Some (l ! nat bpos)" by (simp add: go_index_def)
    show ?thesis
    proof (cases "pat (l ! nat bpos)")
      case False
      then show ?thesis using True ix by (subst selectBackward.simps) simp
    next
      case p: True
      have eq: "selectBackward l pat bpos = selectBackward l pat (bpos - 1)"
        by (subst selectBackward.simps) (simp add: True ix p)
      from 1(1) [OF True ix] p True 1(3)
      obtain b where "selectBackward l pat (bpos - 1) = Some b" "- 1 \<le> b" "b \<le> bpos - 1"
        by auto
      with eq show ?thesis by auto
    qed
  qed
qed

lemma selectForward_range:
  "0 \<le> epos \<Longrightarrow> epos \<le> len l \<Longrightarrow>
   \<exists>e. selectForward l pat epos = Some e \<and> epos \<le> e \<and> e \<le> len l \<and>
       (epos < len l \<and> pat (l ! nat epos) \<longrightarrow> epos < e)"
proof (induction l pat epos rule: selectForward.induct)
  case (1 l pat epos)
  show ?case
  proof (cases "epos < len l")
    case False
    then show ?thesis using 1(3) by (subst selectForward.simps) simp
  next
    case True
    with 1(2) have ix: "go_index l epos = Some (l ! nat epos)" by (simp add: go_index_def)
    show ?thesis
    proof (cases "pat (l ! nat epos)")
      case False
      then show ?thesis using True ix 1(3) by (subst selectForward.simps) simp
    next
      case p: True
      have eq: "selectForward l pat epos = selectForward l pat (epos + 1)"
        by (subst selectForward.simps) (simp add: True ix p)
      from 1(1) [OF True ix] p True 1(2)
      obtain e where "selectForward l pat (epos + 1) = Some e" "epos + 1 \<le> e" "e \<le> len l"
        by auto
      with eq show ?thesis by auto
    qed
  qed
qed

lemma selectInWord_range:
  assumes "0 \<le> cpos" "cpos < len (line rl)" "line rl ! nat cpos \<noteq> ch CHR '' ''"
  shows "\<exists>bpos epos. selectInWord rl cpos = Some (bpos, epos) \<and>
           0 \<le> bpos \<and> bpos \<le> cpos \<and> cpos \<le> epos \<and> epos < len (line rl)"
proof -
  define c where "c = line rl ! nat cpos"
  define pattern where "pattern = (if \<not> matchWord c then matchNonWord else matchWord)"
  have ix: "go_index (line rl) cpos = Some c" using assms by (simp add: go_index_def c_def)
  have pc: "pattern (line rl ! nat cpos)"
    using assms(3) by (auto simp: pattern_def c_def matchNonWord_def)
  from selectBackward_range [of cpos "line rl" pattern] assms pc
  obtain b where b: "selectBackward (line rl) pattern cpos = Some b" "- 1 \<le> b" "b < cpos"
    by auto
  from selectForward_range [of cpos "line rl" pattern] assms pc
  obtain e where e: "selectForward (line rl) pattern cpos = Some e" "cpos < e" "e \<le> len (line rl)"
    by auto
  show ?thesis
    using ix b e assms(1) by (simp add: selectInWord_def pattern_def [symmetric] Let_def)
qed

lemma switchKeyword_returns:
  assumes ok: "0 \<le> pos rl" "pos rl < len (line rl)"
    and nb: "line rl ! nat (pos rl) \<noteq> ch CHR '' ''"
    and nm: "\<not> matchPair is_sign is_digit (lineSlice rl 2)"
            "\<not> matchPair is_sign is_letter (lineSlice rl 2)"
    and ns: "\<forall>sw \<in> set keywordSwitchers. \<forall>sel inc. \<not> fst (sw sel inc)"
  shows "switchKeyword charCtrlA lineSlice keywordSwitchers rl = Some rl"
proof -
  from selectInWord_range [OF ok nb]
  obtain bpos epos where s: "selectInWord rl (pos rl) = Some (bpos, epos)"
    and r: "0 \<le> bpos" "bpos \<le> pos rl" "pos rl \<le> epos" "epos < len (line rl)"
    by auto
  have l: "\<And>sel inc cpos b e. switchLoop keywordSwitchers sel inc cpos b e rl = Some rl"
    using ns by (intro switchLoop_unchanged) auto
  show ?thesis
    using s r nm l
    by (auto simp: switchKeyword_def Let_def go_index_def go_slice_def split: option.splits)
qed

lemma switchKeyword_unchanged:
  assumes "\<forall>sw \<in> set keywordSwitchers. \<forall>sel inc. \<not> fst (sw sel inc)"
    and "switchKeyword charCtrlA lineSlice keywordSwitchers rl = Some rl'"
  shows "rl' = rl"
  using assms(2) switchLoop_unchanged [of keywordSwitchers] assms(1)
  by (auto simp: switchKeyword_def Let_def split: option.splits if_splits prod.splits)

lemma switchKeyword_cursor_at_end_panics:
  assumes "len (line rl) \<le> pos rl"
  shows "switchKeyword charCtrlA lineSlice keywordSwitchers rl = None"
  using assms
  by (auto simp: switchKeyword_def selectInWord_def go_index_def Let_def split: option.splits)

text \<open>
  C5. No widget panics, \<^verbatim>\<open>switchKeyword\<close> and \<^verbatim>\<open>selectInWord\<close> on an empty line
  included. On the empty line \<^verbatim>\<open>selectInWord\<close> reads \<^verbatim>\<open>rl.line[cpos]\<close> and panics,
  whatever \<^verbatim>\<open>lineSlice\<close> returns and whatever the switchers are.
\<close>

theorem switchKeyword_empty_line_panics:
  "switchKeyword charCtrlA lineSlice keywordSwitchers (editing [] 0) = None"
  by (simp add: switchKeyword_def selectInWord_def evals)

text \<open>
  C6. Where no strategy applies, \<^verbatim>\<open>switchKeyword\<close> leaves line and cursor as they are.
  On a line of two blanks with the cursor on the second, where nothing can apply, the
  selection \<^verbatim>\<open>rl.line[bpos:epos]\<close> has \<open>bpos\<close> beyond \<open>epos\<close>, or the bumped cursor is
  outside the line: \<^verbatim>\<open>switchKeyword\<close> panics.
\<close>

theorem switchKeyword_blank_line_panics:
  "switchKeyword charCtrlA lineSlice keywordSwitchers (editing (runes ''  '') 1) = None"
  by (simp add: switchKeyword_def selectInWord_def selectBackward.simps selectForward.simps
      is_digit_def matchWord_def matchNonWord_def is_letter_def is_sign_def evals)

section \<open>History navigation\<close>

text \<open>
  \<open>wrap64\<close> leaves the values of a 64-bit \<^verbatim>\<open>int\<close> as they are, and the index that
  \<^verbatim>\<open>walkHistory\<close> passes to the file history is always in range.
\<close>

lemma wrap64_id: "- (2 ^ 63) \<le> x \<Longrightarrow> x < 2 ^ 63 \<Longrightarrow> wrap64 x = x"
  by (simp add: wrap64_def)

lemma wrap64_range: "- (2 ^ 63) \<le> wrap64 x \<and> wrap64 x < 2 ^ 63"
proof -
  have "0 \<le> (x + 2 ^ 63) mod (2 ^ 64 :: int)" "(x + 2 ^ 63) mod (2 ^ 64 :: int) < 2 ^ 64"
    by simp_all
  then show ?thesis by (simp add: wrap64_def)
qed

lemma fileHistory_walk_reads_a_line:
  assumes "0 < hp" "hp \<le> Len (fileHistory list)" "Len (fileHistory list) < 2 ^ 63"
  shows "GetLine (fileHistory list) (wrap64 (Len (fileHistory list) - hp))
           = Inr (list ! nat (len list - hp))"
proof -
  have "wrap64 (Len (fileHistory list) - hp) = Len (fileHistory list) - hp"
    using assms by (intro wrap64_id) simp_all
  then show ?thesis
    using assms by (simp add: fileHistory_def fileHistory_GetLine_def)
qed

text \<open>
  A step that overflows the history position is no walk into the history: from position
  1 the largest step wraps to the smallest \<^verbatim>\<open>int\<close>, the position is reset to 0 and
  \<^verbatim>\<open>GetLine\<close> is not called.
\<close>

lemma walkTarget_overflow:
  "histPos rl = 1 \<Longrightarrow> 0 < Len history \<Longrightarrow> walkTarget history (2 ^ 63 - 1) rl = 0"
  by (simp add: walkTarget_def wrap64_def)

text \<open>
  C9. When \<^verbatim>\<open>GetLine\<close> returns an error during \<^verbatim>\<open>walkHistory\<close>, the step ends without a
  panic, the error text is printed, and the line and the cursor are what they were
  before the step (\<^verbatim>\<open>resetHelpers\<close> leaving line and cursor alone). \<^verbatim>\<open>GetLine\<close> is called
  when the position the walk settles on, computed with the wrap-around of the machine,
  is positive.
\<close>

theorem walkHistory_GetLine_error:
  assumes rh: "\<And>s. line (resetHelpers s) = line s \<and> pos (resetHelpers s) = pos s"
    and cur: "currentHistory (rl\<lparr>historySourcePos := 0\<rparr>) = Some (Some history)"
    and ne: "Len history \<noteq> 0"
    and tgt: "0 < walkTarget history p rl"
    and err: "GetLine history (wrap64 (Len history - walkTarget history p rl)) = Inl err"
  shows "\<exists>rl'. walkHistory resetHelpers clearLine p rl = Some rl' \<and>
           line rl' = line rl \<and> pos rl' = pos rl \<and>
           runes [CHR 0x0D, CHR 0x0A] @ err @ runes [CHR 0x0D, CHR 0x0A] \<in> set (printed rl')"
  using cur ne tgt err
  by (auto simp: walkHistory_def Let_def walkTarget_def print_def rh split: if_splits)

theorem walkHistory_GetLine_error_witness:
  "\<exists>rl'. walkHistory (\<lambda>s. s) (\<lambda>s. s\<lparr>line := [], pos := 0\<rparr>) 1
            ((editing (runes ''ab'') 1)\<lparr>histories := [(runes ''h'', unreadable)],
                                         historyNames := [runes ''h'']\<rparr>)
          = Some rl' \<and> line rl' = runes ''ab'' \<and> pos rl' = 1 \<and>
          runes [CHR 0x0D, CHR 0x0A] @ runes ''no such line'' @ runes [CHR 0x0D, CHR 0x0A]
            \<in> set (printed rl')"
  using walkHistory_GetLine_error [of "\<lambda>s. s"
      "(editing (runes ''ab'') 1)\<lparr>histories := [(runes ''h'', unreadable)], historyNames := [runes ''h'']\<rparr>"
      unreadable 1 "runes ''no such line''" "\<lambda>s. s\<lparr>line := [], pos := 0\<rparr>"]
  by (simp add: currentHistory_def unreadable_def walkTarget_def wrap64_def editing_def len_def
      go_index_def)

end
